theory Spec2Isabelle
  imports Complex_Main
begin

section \<open>Data model (app/models/task.py, app/models/project.py)\<close>

text \<open>
  Python strings are sequences of Unicode code points; a string is modelled as the list
  of its code points. Timestamps (\<open>datetime\<close>) are points on a discrete time line.
  Identifiers are Python integers.
\<close>

type_synonym pystr = "nat list"
type_synonym time = nat

abbreviation py :: "string \<Rightarrow> pystr" where
  "py s \<equiv> map of_char s"

datatype TaskPriority = LOW | MEDIUM | HIGH | URGENT

datatype TaskStatus = TODO | IN_PROGRESS | REVIEW | DONE

text \<open>
  One row of table \<open>tasks\<close>. The two \<open>Float\<close> columns hold IEEE doubles; every double
  is a rational number, so they are carried as rationals (they are stored and returned,
  never computed with).
\<close>

record task =
  t_id :: int
  title :: pystr
  description :: "pystr option"
  priority :: TaskPriority
  status :: TaskStatus
  is_completed :: bool
  created_at :: time
  updated_at :: "time option"
  due_date :: "time option"
  completed_at :: "time option"
  estimated_hours :: rat
  actual_hours :: rat
  tags :: "pystr option"
  category :: "pystr option"
  user_id :: int
  project_id :: "int option"
  parent_task_id :: "int option"

record task_comment =
  c_id :: int
  content :: pystr
  c_task_id :: int
  c_user_id :: int

record task_attachment =
  a_id :: int
  filename :: pystr
  a_task_id :: int
  uploaded_by :: int

section \<open>Tags (Task.get_tags_list, Task.set_tags)\<close>

text \<open>
  \<open>str.strip()\<close> without argument removes leading and trailing whitespace, that is the
  code points for which \<open>str.isspace\<close> holds.
\<close>

definition is_space :: "nat \<Rightarrow> bool" where
  "is_space c \<longleftrightarrow>
     (9 \<le> c \<and> c \<le> 13) \<or> (28 \<le> c \<and> c \<le> 32) \<or> c = 133 \<or> c = 160 \<or> c = 5760 \<or>
     (8192 \<le> c \<and> c \<le> 8202) \<or> c = 8232 \<or> c = 8233 \<or> c = 8239 \<or> c = 8287 \<or> c = 12288"

definition lstrip :: "pystr \<Rightarrow> pystr" where
  "lstrip s = dropWhile is_space s"

definition rstrip :: "pystr \<Rightarrow> pystr" where
  "rstrip s = rev (dropWhile is_space (rev s))"

definition strip :: "pystr \<Rightarrow> pystr" where
  "strip s = rstrip (lstrip s)"

text \<open>\<open>s.split(sep)\<close> for a separator of one code point: never the empty list.\<close>

fun split_on :: "nat \<Rightarrow> pystr \<Rightarrow> pystr list" where
  "split_on sep [] = [[]]"
| "split_on sep (c # cs) =
     (if c = sep then [] # split_on sep cs
      else (c # hd (split_on sep cs)) # tl (split_on sep cs))"

text \<open>\<open>sep.join(xs)\<close>.\<close>

fun join :: "pystr \<Rightarrow> pystr list \<Rightarrow> pystr" where
  "join sep [] = []"
| "join sep [x] = x"
| "join sep (x # y # ys) = x @ sep @ join sep (y # ys)"

definition comma :: nat where
  "comma = 44"

text \<open>
  \<^verbatim>\<open>
  def get_tags_list(self):
      if not self.tags:
          return []
      return [tag.strip() for tag in self.tags.split(',') if tag.strip()]
  \<close>
  \<open>not self.tags\<close> holds for \<open>None\<close> and for the empty string.
\<close>

definition get_tags_list :: "task \<Rightarrow> pystr list" where
  "get_tags_list t =
     (case tags t of
        None \<Rightarrow> []
      | Some s \<Rightarrow>
          if s = [] then []
          else map strip (filter (\<lambda>tag. strip tag \<noteq> []) (split_on comma s)))"

text \<open>
  \<^verbatim>\<open>
  def set_tags(self, tags_list):
      if tags_list:
          self.tags = ','.join([tag.strip() for tag in tags_list if tag.strip()])
      else:
          self.tags = ''
  \<close>
  The argument is a list of strings or \<open>None\<close>; \<open>None\<close> and the empty list are falsy.
\<close>

definition set_tags :: "pystr list option \<Rightarrow> task \<Rightarrow> task" where
  "set_tags tags_list t =
     (case tags_list of
        None \<Rightarrow> t\<lparr>tags := Some []\<rparr>
      | Some l \<Rightarrow>
          if l = [] then t\<lparr>tags := Some []\<rparr>
          else t\<lparr>tags := Some (join [comma] (map strip (filter (\<lambda>tag. strip tag \<noteq> []) l)))\<rparr>)"

text \<open>What the specification expects to read back: each entry trimmed, empty ones dropped.\<close>

definition trimmed_tags :: "pystr list \<Rightarrow> pystr list" where
  "trimmed_tags l = filter (\<lambda>tag. tag \<noteq> []) (map strip l)"

section \<open>Completion bookkeeping (Task.mark_completed, Task.mark_incomplete, the listener)\<close>

text \<open>
  \<^verbatim>\<open>
  @event.listens_for(Task.is_completed, 'set')
  def task_completion_listener(target, value, oldvalue, initiator):
      if value and not oldvalue:
          target.completed_at = datetime.utcnow()
          target.status = TaskStatus.DONE
      elif not value and oldvalue:
          target.completed_at = None
          target.status = TaskStatus.TODO
  \<close>
  The clock is read a few times within one operation; these readings are identified and
  passed in as \<open>now\<close>.
\<close>

definition task_completion_listener :: "time \<Rightarrow> bool \<Rightarrow> bool \<Rightarrow> task \<Rightarrow> task" where
  "task_completion_listener now v oldvalue target =
     (if v \<and> \<not> oldvalue then target\<lparr>completed_at := Some now, status := DONE\<rparr>
      else if \<not> v \<and> oldvalue then target\<lparr>completed_at := None, status := TODO\<rparr>
      else target)"

text \<open>
  The assignment \<open>task.is_completed = v\<close>: the ORM runs the \<open>set\<close> listener with the
  new and the old value and then stores the new value.
\<close>

definition set_is_completed :: "time \<Rightarrow> bool \<Rightarrow> task \<Rightarrow> task" where
  "set_is_completed now v t = (task_completion_listener now v (is_completed t) t)\<lparr>is_completed := v\<rparr>"

text \<open>Lines 61 to 64 of \<open>mark_completed\<close>: the four assignments to \<open>self\<close>.\<close>

definition mark_completed_self :: "time \<Rightarrow> task \<Rightarrow> task" where
  "mark_completed_self now t =
     (set_is_completed now True t)\<lparr>status := DONE, completed_at := Some now, updated_at := Some now\<rparr>"

text \<open>
  \<^verbatim>\<open>
  def mark_incomplete(self):
      self.is_completed = False
      self.status = TaskStatus.TODO
      self.completed_at = None
      self.updated_at = datetime.utcnow()
  \<close>
\<close>

definition mark_incomplete_self :: "time \<Rightarrow> task \<Rightarrow> task" where
  "mark_incomplete_self now t =
     (set_is_completed now False t)\<lparr>status := TODO, completed_at := None, updated_at := Some now\<rparr>"

text \<open>
  Table \<open>tasks\<close> is the list of its rows. An ORM object is the row with its primary key,
  so an assignment to an attribute of the object rewrites that row.
\<close>

definition update_task :: "int \<Rightarrow> (task \<Rightarrow> task) \<Rightarrow> task list \<Rightarrow> task list" where
  "update_task i f tbl = map (\<lambda>t. if t_id t = i then f t else t) tbl"

text \<open>The relationship \<open>self.subtasks\<close>: the rows whose \<open>parent_task_id\<close> is \<open>self.id\<close>.\<close>

definition subtasks :: "int \<Rightarrow> task list \<Rightarrow> task list" where
  "subtasks i tbl = filter (\<lambda>t. parent_task_id t = Some i) tbl"

definition incomplete :: "int \<Rightarrow> task list \<Rightarrow> bool" where
  "incomplete i tbl = list_ex (\<lambda>t. t_id t = i \<and> \<not> is_completed t) tbl"

definition pending_count :: "task list \<Rightarrow> nat" where
  "pending_count tbl = length (filter (\<lambda>t. \<not> is_completed t) tbl)"

lemma is_completed_mark_completed_self: "is_completed (mark_completed_self now t)"
  by (simp add: mark_completed_self_def set_is_completed_def)

lemma pending_count_update_le:
  "pending_count (update_task c (mark_completed_self now) tbl) \<le> pending_count tbl"
  by (induction tbl)
    (simp_all add: pending_count_def update_task_def is_completed_mark_completed_self)

lemma pending_count_update:
  "incomplete c tbl \<Longrightarrow> pending_count (update_task c (mark_completed_self now) tbl) < pending_count tbl"
proof (induction tbl)
  case Nil
  then show ?case by (simp add: incomplete_def)
next
  case (Cons t tbl)
  show ?case
  proof (cases "t_id t = c \<and> \<not> is_completed t")
    case True
    have "pending_count (update_task c (mark_completed_self now) (t # tbl)) =
          pending_count (update_task c (mark_completed_self now) tbl)"
      using True by (simp add: pending_count_def update_task_def is_completed_mark_completed_self)
    moreover have "pending_count (t # tbl) = Suc (pending_count tbl)"
      using True by (simp add: pending_count_def)
    ultimately show ?thesis
      using pending_count_update_le [of c now tbl] by simp
  next
    case False
    with Cons.prems have "incomplete c tbl" by (auto simp: incomplete_def)
    from Cons.IH [OF this] have lt:
      "pending_count (update_task c (mark_completed_self now) tbl) < pending_count tbl" .
    show ?thesis
    proof (cases "is_completed t")
      case True
      have "is_completed (if t_id t = c then mark_completed_self now t else t)"
        using True by (simp add: is_completed_mark_completed_self)
      then have "pending_count (update_task c (mark_completed_self now) (t # tbl)) =
          pending_count (update_task c (mark_completed_self now) tbl)"
        by (simp add: pending_count_def update_task_def)
      moreover have "pending_count (t # tbl) = pending_count tbl"
        using True by (simp add: pending_count_def)
      ultimately show ?thesis using lt by simp
    next
      case nc: False
      with False have "t_id t \<noteq> c" by simp
      then have "pending_count (update_task c (mark_completed_self now) (t # tbl)) =
          Suc (pending_count (update_task c (mark_completed_self now) tbl))"
        using nc by (simp add: pending_count_def update_task_def)
      moreover have "pending_count (t # tbl) = Suc (pending_count tbl)"
        using nc by (simp add: pending_count_def)
      ultimately show ?thesis using lt by simp
    qed
  qed
qed

text \<open>
  \<^verbatim>\<open>
  def mark_completed(self):
      self.is_completed = True
      self.status = TaskStatus.DONE
      self.completed_at = datetime.utcnow()
      self.updated_at = datetime.utcnow()
      for subtask in self.subtasks:
          if not subtask.is_completed:
              subtask.mark_completed()
  \<close>
  The recursion runs on the call stack; \<open>mark_subtasks\<close> keeps that stack as the list of
  the subtasks still to be visited: the subtasks of the task being marked in front, the
  remaining ones of its ancestors behind. A subtask is tested when its turn comes, after
  the calls for its elder siblings have returned, as in the loop. Each call marks a row
  that was not completed, so the number of such rows decreases and the recursion ends even
  when the parent references form a cycle.
\<close>

function mark_subtasks :: "time \<Rightarrow> int list \<Rightarrow> task list \<Rightarrow> task list" where
  "mark_subtasks now [] tbl = tbl"
| "mark_subtasks now (c # cs) tbl =
     (if incomplete c tbl
      then mark_subtasks now
             (map t_id (subtasks c (update_task c (mark_completed_self now) tbl)) @ cs)
             (update_task c (mark_completed_self now) tbl)
      else mark_subtasks now cs tbl)"
  by pat_completeness auto
termination
  by (relation "measures [\<lambda>(now, cs, tbl). pending_count tbl, \<lambda>(now, cs, tbl). length cs]")
    (auto simp: pending_count_update)

definition mark_completed :: "time \<Rightarrow> int \<Rightarrow> task list \<Rightarrow> task list" where
  "mark_completed now i tbl =
     mark_subtasks now
       (map t_id (subtasks i (update_task i (mark_completed_self now) tbl)))
       (update_task i (mark_completed_self now) tbl)"

definition mark_incomplete :: "time \<Rightarrow> int \<Rightarrow> task list \<Rightarrow> task list" where
  "mark_incomplete now i tbl = update_task i (mark_incomplete_self now) tbl"

text \<open>The descendants of a task: its subtasks, their subtasks, and so on.\<close>

inductive descendant :: "task list \<Rightarrow> int \<Rightarrow> task \<Rightarrow> bool" for tbl :: "task list" where
  child: "t \<in> set tbl \<Longrightarrow> parent_task_id t = Some i \<Longrightarrow> descendant tbl i t"
| below: "descendant tbl i u \<Longrightarrow> t \<in> set tbl \<Longrightarrow> parent_task_id t = Some (t_id u) \<Longrightarrow>
          descendant tbl i t"

section \<open>Sample rows\<close>

text \<open>A row with the given id, owner, parent and completion state, used in the examples below.\<close>

definition sample_task :: "int \<Rightarrow> int \<Rightarrow> int option \<Rightarrow> bool \<Rightarrow> task" where
  "sample_task i uid parent done =
     \<lparr>t_id = i, title = py ''task'', description = None, priority = MEDIUM,
      status = (if done then DONE else TODO), is_completed = done, created_at = 0,
      updated_at = Some 0, due_date = None, completed_at = (if done then Some 0 else None),
      estimated_hours = 0, actual_hours = 0, tags = None, category = None,
      user_id = uid, project_id = None, parent_task_id = parent\<rparr>"

section \<open>Properties of the tag functions\<close>

lemma split_on_not_Nil: "split_on sep s \<noteq> []"
  by (induction s) auto

lemma split_on_no_sep: "sep \<notin> set s \<Longrightarrow> split_on sep s = [s]"
  by (induction s) auto

lemma split_on_append_sep:
  "sep \<notin> set x \<Longrightarrow> split_on sep (x @ sep # r) = x # split_on sep r"
  by (induction x) auto

lemma split_on_join:
  "xs \<noteq> [] \<Longrightarrow> \<forall>x \<in> set xs. sep \<notin> set x \<Longrightarrow> split_on sep (join [sep] xs) = xs"
proof (induction "[sep]" xs rule: join.induct)
  case 1
  then show ?case by simp
next
  case (2 x)
  then show ?case by (simp add: split_on_no_sep)
next
  case (3 x y ys)
  then show ?case by (simp add: split_on_append_sep)
qed

lemma join_not_Nil: "xs \<noteq> [] \<Longrightarrow> \<forall>x \<in> set xs. x \<noteq> [] \<Longrightarrow> join sep xs \<noteq> []"
  by (induction sep xs rule: join.induct) auto

lemma set_strip: "set (strip s) \<subseteq> set s"
proof -
  have "set (rstrip u) \<subseteq> set u" for u
    unfolding rstrip_def using set_dropWhileD [of _ is_space "rev u"] by auto
  moreover have "set (lstrip s) \<subseteq> set s"
    unfolding lstrip_def using set_dropWhileD [of _ is_space s] by auto
  ultimately show ?thesis unfolding strip_def by blast
qed

lemma rstrip_last: "rstrip s \<noteq> [] \<Longrightarrow> \<not> is_space (last (rstrip s))"
proof -
  assume a: "rstrip s \<noteq> []"
  then have "dropWhile is_space (rev s) \<noteq> []" by (simp add: rstrip_def)
  then have "\<not> is_space (hd (dropWhile is_space (rev s)))" by (rule hd_dropWhile)
  with a show ?thesis by (simp add: rstrip_def last_rev)
qed

lemma rstrip_id: "s = [] \<or> \<not> is_space (last s) \<Longrightarrow> rstrip s = s"
proof -
  assume "s = [] \<or> \<not> is_space (last s)"
  then have "rev s = [] \<or> \<not> is_space (hd (rev s))" by (auto simp: hd_rev)
  then have "dropWhile is_space (rev s) = rev s" by (cases "rev s") auto
  then show ?thesis by (simp add: rstrip_def)
qed

lemma lstrip_id: "s = [] \<or> \<not> is_space (hd s) \<Longrightarrow> lstrip s = s"
  by (cases s) (auto simp: lstrip_def)

lemma lstrip_hd: "lstrip s \<noteq> [] \<Longrightarrow> \<not> is_space (hd (lstrip s))"
  unfolding lstrip_def by (rule hd_dropWhile)

lemma rstrip_hd: "u \<noteq> [] \<Longrightarrow> \<not> is_space (hd u) \<Longrightarrow> rstrip u \<noteq> [] \<and> hd (rstrip u) = hd u"
proof -
  assume u: "u \<noteq> []" and h: "\<not> is_space (hd u)"
  then obtain a v where uv: "u = a # v" by (cases u) auto
  with h have na: "\<not> is_space a" by simp
  have "dropWhile is_space (rev v @ [a]) = dropWhile is_space (rev v) @ [a]"
    using na by (simp add: dropWhile_append3)
  then have "rstrip u = a # rev (dropWhile is_space (rev v))"
    by (simp add: rstrip_def uv)
  then show ?thesis by (simp add: uv)
qed

lemma strip_idem: "strip (strip s) = strip s"
proof (cases "lstrip s = []")
  case True
  then have "strip s = []" by (simp add: strip_def rstrip_def)
  moreover have "strip [] = []" by (simp add: strip_def rstrip_def lstrip_def)
  ultimately show ?thesis by simp
next
  case False
  then have h: "\<not> is_space (hd (lstrip s))" by (rule lstrip_hd)
  from rstrip_hd [OF False h]
  have ne: "strip s \<noteq> []" and hd: "hd (strip s) = hd (lstrip s)" by (simp_all add: strip_def)
  have l: "lstrip (strip s) = strip s" using h hd by (simp add: lstrip_id)
  have "\<not> is_space (last (strip s))" using ne rstrip_last [of "lstrip s"] by (simp add: strip_def)
  then have "rstrip (strip s) = strip s" by (simp add: rstrip_id)
  with l show ?thesis by (simp add: strip_def [of "strip s"])
qed

lemma stored_tags_eq: "map strip (filter (\<lambda>tag. strip tag \<noteq> []) l) = trimmed_tags l"
  by (induction l) (auto simp: trimmed_tags_def)

lemma get_tags_list_joined:
  assumes "\<forall>x \<in> set xs. x \<noteq> [] \<and> comma \<notin> set x \<and> strip x = x"
  shows "get_tags_list (t\<lparr>tags := Some (join [comma] xs)\<rparr>) = xs"
proof (cases "xs = []")
  case True
  then show ?thesis by (simp add: get_tags_list_def)
next
  case False
  with assms have ne: "join [comma] xs \<noteq> []" by (simp add: join_not_Nil)
  from False assms have sp: "split_on comma (join [comma] xs) = xs" by (simp add: split_on_join)
  have "filter (\<lambda>tag. strip tag \<noteq> []) xs = xs" using assms by (simp add: filter_id_conv)
  moreover have "map strip xs = xs" using assms by (simp add: map_idI)
  ultimately show ?thesis using ne sp by (simp add: get_tags_list_def)
qed

text \<open>
  Claim C8, as stated: for every list of tag strings, \<open>set_tags\<close> followed by
  \<open>get_tags_list\<close> yields the list of the trimmed, non-empty entries. It fails for a tag
  that contains a comma: the stored string is split at that comma when it is read back.
\<close>

theorem tags_round_trip_comma_counterexample:
  "get_tags_list (set_tags (Some [py ''a,b'']) (sample_task 1 1 None False)) = [py ''a'', py ''b''] \<and>
   trimmed_tags [py ''a,b''] = [py ''a,b''] \<and>
   get_tags_list (set_tags (Some [py ''a,b'']) (sample_task 1 1 None False)) \<noteq> trimmed_tags [py ''a,b'']"
proof -
  have "get_tags_list (set_tags (Some [py ''a,b'']) (sample_task 1 1 None False)) = [py ''a'', py ''b'']"
    by (simp add: get_tags_list_def set_tags_def sample_task_def strip_def lstrip_def rstrip_def
        is_space_def comma_def)
  moreover have "trimmed_tags [py ''a,b''] = [py ''a,b'']"
    by (simp add: trimmed_tags_def strip_def lstrip_def rstrip_def is_space_def)
  ultimately show ?thesis by simp
qed

text \<open>
  Claim C8, amended: for every list of tag strings none of which contains a comma, setting
  the tags from the list and reading them back yields exactly the trimmed, non-empty
  entries in the same order; setting the tags from the empty list or from \<open>None\<close> stores
  the empty string, and reading back yields the empty list.
\<close>

theorem tags_round_trip:
  "((\<forall>tag \<in> set l. comma \<notin> set tag) \<longrightarrow> get_tags_list (set_tags (Some l) t) = trimmed_tags l) \<and>
   tags (set_tags (Some []) t) = Some [] \<and> get_tags_list (set_tags (Some []) t) = [] \<and>
   tags (set_tags None t) = Some [] \<and> get_tags_list (set_tags None t) = []"
proof -
  have main: "get_tags_list (set_tags (Some l) t) = trimmed_tags l"
    if a: "\<forall>tag \<in> set l. comma \<notin> set tag"
  proof -
    have p: "\<forall>x \<in> set (trimmed_tags l). x \<noteq> [] \<and> comma \<notin> set x \<and> strip x = x"
      using a set_strip by (fastforce simp: trimmed_tags_def strip_idem)
    show ?thesis
    proof (cases "l = []")
      case True
      then show ?thesis by (simp add: set_tags_def get_tags_list_def trimmed_tags_def)
    next
      case False
      then show ?thesis
        using get_tags_list_joined [OF p] by (simp add: set_tags_def stored_tags_eq)
    qed
  qed
  have "tags (set_tags (Some []) t) = Some [] \<and> get_tags_list (set_tags (Some []) t) = []"
    by (simp add: set_tags_def get_tags_list_def)
  moreover have "tags (set_tags None t) = Some [] \<and> get_tags_list (set_tags None t) = []"
    by (simp add: set_tags_def get_tags_list_def)
  ultimately show ?thesis using main by blast
qed

theorem tags_round_trip_witness:
  "get_tags_list (set_tags (Some [py ''  a '', py '' '', py ''b c'']) (sample_task 1 1 None False))
     = [py ''a'', py ''b c'']"
proof -
  have h: "\<forall>tag \<in> set [py ''  a '', py '' '', py ''b c'']. comma \<notin> set tag"
    by (simp add: comma_def)
  have "trimmed_tags [py ''  a '', py '' '', py ''b c''] = [py ''a'', py ''b c'']"
    by (simp add: trimmed_tags_def strip_def lstrip_def rstrip_def is_space_def)
  with h tags_round_trip [of "[py ''  a '', py '' '', py ''b c'']" "sample_task 1 1 None False"]
  show ?thesis by simp
qed

section \<open>Marking a task incomplete\<close>

lemma mark_incomplete_self_fields:
  "mark_incomplete_self now t =
     t\<lparr>is_completed := False, status := TODO, completed_at := None, updated_at := Some now\<rparr>"
  by (simp add: mark_incomplete_self_def set_is_completed_def task_completion_listener_def)

text \<open>
  Claim C5: \<open>mark_incomplete\<close> rewrites the row of the task only, setting its completion
  flag to false, its status to TODO, clearing its completion timestamp and setting its
  update timestamp; every other row of the table, so every subtask, is left as it was.
\<close>

theorem mark_incomplete_no_cascade:
  "length (mark_incomplete now i tbl) = length tbl \<and>
   (\<forall>k < length tbl.
      (t_id (tbl ! k) = i \<longrightarrow>
         mark_incomplete now i tbl ! k =
           (tbl ! k)\<lparr>is_completed := False, status := TODO, completed_at := None,
                      updated_at := Some now\<rparr>) \<and>
      (t_id (tbl ! k) \<noteq> i \<longrightarrow> mark_incomplete now i tbl ! k = tbl ! k))"
  by (simp add: mark_incomplete_def update_task_def mark_incomplete_self_fields)

theorem mark_incomplete_no_cascade_witness:
  "mark_incomplete 7 1 [sample_task 1 1 None True, sample_task 2 1 (Some 1) True] ! 1 =
     sample_task 2 1 (Some 1) True \<and>
   is_completed (mark_incomplete 7 1 [sample_task 1 1 None True, sample_task 2 1 (Some 1) True] ! 1) \<and>
   \<not> is_completed (mark_incomplete 7 1 [sample_task 1 1 None True, sample_task 2 1 (Some 1) True] ! 0)"
proof -
  let ?tbl = "[sample_task 1 1 None True, sample_task 2 1 (Some 1) True]"
  have i0: "t_id (?tbl ! 0) = 1" and i1: "t_id (?tbl ! 1) \<noteq> 1"
    by (simp_all add: sample_task_def)
  have l0: "0 < length ?tbl" and l1: "1 < length ?tbl" by simp_all
  note th = mark_incomplete_no_cascade [of 7 1 ?tbl]
  from th l0 i0 have r0: "mark_incomplete 7 1 ?tbl ! 0 =
      (?tbl ! 0)\<lparr>is_completed := False, status := TODO, completed_at := None, updated_at := Some 7\<rparr>"
    by blast
  from th l1 i1 have r1: "mark_incomplete 7 1 ?tbl ! 1 = ?tbl ! 1"
    by blast
  have c: "is_completed (sample_task 2 1 (Some 1) True)" by (simp add: sample_task_def)
  from r0 have n: "\<not> is_completed (mark_incomplete 7 1 ?tbl ! 0)" by simp
  from r1 c n show ?thesis by simp
qed

end
